theory Spec2Isabelle
  imports Main
begin

section \<open>JavaScript values\<close>

text \<open>
  The dispatcher of \<^verbatim>\<open>packages/core/src/common/service-provider.ts\<close> is written in
  TypeScript; at run time its contributions and the services they return are arbitrary
  JavaScript values (the types are \<^verbatim>\<open>any\<close>). A number is a double: not-a-number, one of
  the two zeros, an infinity, or \<open>mantissa * 2 ^ exponent\<close>; positive zero is the finite
  number with mantissa \<open>0\<close>.
\<close>

datatype jsnumber =
    NaN
  | NegativeZero
  | PositiveInfinity
  | NegativeInfinity
  | FiniteNumber (mantissa: int) (exponent: int)

datatype jsprimitive =
    JSUndefined
  | JSNull
  | JSBoolean bool
  | JSNumber jsnumber
  | JSBigInt int
  | JSString string
  | JSSymbol string

datatype 'a promise_state = Pending | Fulfilled 'a | Rejected 'a

text \<open>
  A value is a primitive or an object. Objects that only travel through the dispatcher
  are references (\<open>ObjectRef\<close>); a promise carries its state; \<open>Error m\<close> is the object
  made by \<^verbatim>\<open>new Error(m)\<close> and \<open>TypeError\<close> the one the engine raises (its message
  is engine specific).
\<close>

datatype jsvalue =
    Primitive jsprimitive
  | ObjectRef nat
  | Promise "jsvalue promise_state"
  | Error string
  | TypeError

text \<open>The truthiness test of \<^verbatim>\<open>if (service)\<close>: ECMAScript's ToBoolean.\<close>

fun ToBoolean :: "jsvalue \<Rightarrow> bool" where
  "ToBoolean (Primitive JSUndefined) = False"
| "ToBoolean (Primitive JSNull) = False"
| "ToBoolean (Primitive (JSBoolean b)) = b"
| "ToBoolean (Primitive (JSNumber NaN)) = False"
| "ToBoolean (Primitive (JSNumber NegativeZero)) = False"
| "ToBoolean (Primitive (JSNumber (FiniteNumber m e))) = (m \<noteq> 0)"
| "ToBoolean (Primitive (JSNumber PositiveInfinity)) = True"
| "ToBoolean (Primitive (JSNumber NegativeInfinity)) = True"
| "ToBoolean (Primitive (JSBigInt i)) = (i \<noteq> 0)"
| "ToBoolean (Primitive (JSString s)) = (s \<noteq> [])"
| "ToBoolean (Primitive (JSSymbol d)) = True"
| "ToBoolean (ObjectRef r) = True"
| "ToBoolean (Promise st) = True"
| "ToBoolean (Error m) = True"
| "ToBoolean TypeError = True"

text \<open>Evaluating an expression either yields a value or throws one.\<close>

datatype 'a completion = Normal 'a | Throw jsvalue

section \<open>Contributions\<close>

text \<open>
  Contributions are code supplied from outside: calling one may read and change the rest
  of the program's state, the world \<open>'w\<close>, and may throw. \<open>'p\<close> is the type of the
  opaque \<^verbatim>\<open>params\<close> argument.

  The value stored under a key of an object is callable or not; a property is a data
  property or an accessor, whose getter runs code. An object has its own properties and
  a prototype, and the callables found in it are closures already bound to the
  contribution as their receiver.
\<close>

datatype ('p, 'w) member =
    Callable "'p \<Rightarrow> 'w \<Rightarrow> jsvalue completion \<times> 'w"
  | NonCallable jsvalue

datatype ('p, 'w) property =
    DataProperty "('p, 'w) member"
  | AccessorProperty "'w \<Rightarrow> ('p, 'w) member completion \<times> 'w"

datatype ('p, 'w) jsobject =
  JSObject (own: "string \<rightharpoonup> ('p, 'w) property") (proto: "('p, 'w) jsobject option")

text \<open>
  \<^verbatim>\<open>type ServiceContribution = ServiceContributionFunction | ServiceContributionRecord\<close>
  is what the type checker promises, but the array handed to the constructor comes from
  the dependency-injection container and \<^verbatim>\<open>getService\<close> probes each element at run
  time. An element is therefore any value: a function, an object (an array or not), or a
  primitive, \<^verbatim>\<open>null\<close> and \<^verbatim>\<open>undefined\<close> included.
\<close>

datatype ('p, 'w) ServiceContribution =
    FunctionValue "string \<Rightarrow> 'p \<Rightarrow> 'w \<Rightarrow> jsvalue completion \<times> 'w"
  | ObjectValue (is_array: bool) "('p, 'w) jsobject"
  | PrimitiveValue jsprimitive

fun typeof :: "('p, 'w) ServiceContribution \<Rightarrow> string" where
  "typeof (FunctionValue f) = ''function''"
| "typeof (ObjectValue a obj) = ''object''"
| "typeof (PrimitiveValue JSUndefined) = ''undefined''"
| "typeof (PrimitiveValue JSNull) = ''object''"
| "typeof (PrimitiveValue (JSBoolean b)) = ''boolean''"
| "typeof (PrimitiveValue (JSNumber n)) = ''number''"
| "typeof (PrimitiveValue (JSBigInt i)) = ''bigint''"
| "typeof (PrimitiveValue (JSString s)) = ''string''"
| "typeof (PrimitiveValue (JSSymbol d)) = ''symbol''"

fun Array_isArray :: "('p, 'w) ServiceContribution \<Rightarrow> bool" where
  "Array_isArray (ObjectValue a obj) = a"
| "Array_isArray c = False"

text \<open>
  Reading \<^verbatim>\<open>contribution[serviceId]\<close> on an object: the key is looked up among the
  object's own properties and then along its prototype chain; a getter is run; a key
  found nowhere reads as \<^verbatim>\<open>undefined\<close>.
\<close>

fun Get :: "('p, 'w) jsobject \<Rightarrow> string \<Rightarrow> 'w \<Rightarrow> ('p, 'w) member completion \<times> 'w" where
  "Get (JSObject props parent) key w =
     (case props key of
        Some (DataProperty m) \<Rightarrow> (Normal m, w)
      | Some (AccessorProperty getter) \<Rightarrow> getter w
      | None \<Rightarrow>
          (case parent of
             None \<Rightarrow> (Normal (NonCallable (Primitive JSUndefined)), w)
           | Some p \<Rightarrow> Get p key w))"

text \<open>
  \<^verbatim>\<open>contribution[serviceId]?.(params)\<close>: a property that reads as \<^verbatim>\<open>undefined\<close> or
  \<^verbatim>\<open>null\<close> makes the whole expression \<^verbatim>\<open>undefined\<close>; a callable is called with
  \<^verbatim>\<open>params\<close>; calling anything else raises a TypeError.
\<close>

definition optional_call ::
  "('p, 'w) jsobject \<Rightarrow> string \<Rightarrow> 'p \<Rightarrow> 'w \<Rightarrow> jsvalue completion \<times> 'w" where
  "optional_call obj serviceId params w =
     (case Get obj serviceId w of
        (Throw e, w') \<Rightarrow> (Throw e, w')
      | (Normal (Callable f), w') \<Rightarrow> f params w'
      | (Normal (NonCallable v), w') \<Rightarrow>
          (if v = Primitive JSUndefined \<or> v = Primitive JSNull
           then (Normal (Primitive JSUndefined), w')
           else (Throw TypeError, w')))"

section \<open>The dispatcher\<close>

text \<open>
  The state a call runs in: what \<^verbatim>\<open>getService\<close> has written with
  \<^verbatim>\<open>console.error\<close>, and the world the contributions act on.
\<close>

record 'w env =
  console :: "jsvalue list"
  world :: 'w

record ('p, 'w) DefaultServiceProvider =
  serviceContributions :: "('p, 'w) ServiceContribution list"

text \<open>One turn of the loop either returns from \<^verbatim>\<open>getService\<close> or goes on.\<close>

datatype step = ReturnService jsvalue | NextContribution

text \<open>
  The end of the \<^verbatim>\<open>try\<close> block and its \<^verbatim>\<open>catch\<close>: a truthy service is returned, a
  falsy one falls out of the block, a thrown error is logged.
\<close>

fun after_try :: "'w env \<Rightarrow> jsvalue completion \<times> 'w \<Rightarrow> step \<times> 'w env" where
  "after_try s (Normal service, w) =
     (if ToBoolean service then ReturnService service else NextContribution, s\<lparr>world := w\<rparr>)"
| "after_try s (Throw error, w) =
     (NextContribution, s\<lparr>console := console s @ [error], world := w\<rparr>)"

text \<open>The \<^verbatim>\<open>else\<close> branch: log the type and \<^verbatim>\<open>continue\<close>.\<close>

definition unexpected :: "('p, 'w) ServiceContribution \<Rightarrow> 'w env \<Rightarrow> step \<times> 'w env" where
  "unexpected c s =
     (NextContribution,
      s\<lparr>console := console s @
           [Primitive (JSString (''unexpected contribution type: '' @ typeof c))]\<rparr>)"

text \<open>
  The \<^verbatim>\<open>if\<close> / \<^verbatim>\<open>else if\<close> chain that computes \<^verbatim>\<open>service\<close>, by the kind of
  value the contribution is; \<open>None\<close> stands for the \<^verbatim>\<open>else\<close> branch.
  \<^item> \<^verbatim>\<open>typeof contribution === 'function'\<close>: the contribution is called with
    \<^verbatim>\<open>(serviceId, params)\<close>.
  \<^item> an object: taken as a record unless \<^verbatim>\<open>Array.isArray\<close> holds.
  \<^item> \<^verbatim>\<open>null\<close>: its \<^verbatim>\<open>typeof\<close> is \<^verbatim>\<open>'object'\<close> and it is no array, so the record
    branch is taken, where reading a property of \<^verbatim>\<open>null\<close> raises a TypeError.
  \<^item> every other primitive: the \<^verbatim>\<open>else\<close> branch.
\<close>

definition invoke ::
  "('p, 'w) ServiceContribution \<Rightarrow> string \<Rightarrow> 'p \<Rightarrow> 'w \<Rightarrow> (jsvalue completion \<times> 'w) option" where
  "invoke contribution serviceId params w =
     (case contribution of
        FunctionValue f \<Rightarrow> Some (f serviceId params w)
      | ObjectValue a obj \<Rightarrow>
          (if \<not> a then Some (optional_call obj serviceId params w) else None)
      | PrimitiveValue v \<Rightarrow>
          (if v = JSNull then Some (Throw TypeError, w) else None))"

text \<open>The body of the loop.\<close>

definition getService_iteration ::
  "('p, 'w) ServiceContribution \<Rightarrow> string \<Rightarrow> 'p \<Rightarrow> 'w env \<Rightarrow> step \<times> 'w env" where
  "getService_iteration contribution serviceId params s =
     (case invoke contribution serviceId params (world s) of
        Some r \<Rightarrow> after_try s r
      | None \<Rightarrow> unexpected contribution s)"

text \<open>\<^verbatim>\<open>for (const contribution of this.serviceContributions)\<close>.\<close>

fun getService_loop ::
  "('p, 'w) ServiceContribution list \<Rightarrow> string \<Rightarrow> 'p \<Rightarrow> 'w env \<Rightarrow> jsvalue option \<times> 'w env" where
  "getService_loop [] serviceId params s = (None, s)"
| "getService_loop (c # cs) serviceId params s =
     (case getService_iteration c serviceId params s of
        (ReturnService service, s') \<Rightarrow> (Some service, s')
      | (NextContribution, s') \<Rightarrow> getService_loop cs serviceId params s')"

definition not_found_message :: "string \<Rightarrow> string" where
  "not_found_message serviceId = ''no service found for '' @ [CHR 0x22] @ serviceId @ [CHR 0x22]"

text \<open>
  \<^verbatim>\<open>getService\<close> is a method: it takes the provider and hands it back with its
  completion and the state it leaves.
\<close>

definition getService ::
  "('p, 'w) DefaultServiceProvider \<Rightarrow> string \<Rightarrow> 'p \<Rightarrow> 'w env \<Rightarrow>
     jsvalue completion \<times> ('p, 'w) DefaultServiceProvider \<times> 'w env" where
  "getService this serviceId params s =
     (case getService_loop (serviceContributions this) serviceId params s of
        (Some service, s') \<Rightarrow> (Normal service, this, s')
      | (None, s') \<Rightarrow> (Throw (Error (not_found_message serviceId)), this, s'))"

section \<open>Notions the properties are stated with\<close>

text \<open>
  What each contribution of a list answers to one call when the contributions are asked
  one after the other in list order, each in the state its predecessors left. Unlike the
  loop, this does not stop at the first service.
\<close>

fun answers ::
  "('p, 'w) ServiceContribution list \<Rightarrow> string \<Rightarrow> 'p \<Rightarrow> 'w env \<Rightarrow> step list" where
  "answers [] serviceId params s = []"
| "answers (c # cs) serviceId params s =
     (case getService_iteration c serviceId params s of
        (r, s') \<Rightarrow> r # answers cs serviceId params s')"

text \<open>
  A malformed registration is a value that is neither a function nor an object that is
  not an array: an array, \<^verbatim>\<open>null\<close>, \<^verbatim>\<open>undefined\<close> or another primitive.
\<close>

definition malformed :: "('p, 'w) ServiceContribution \<Rightarrow> bool" where
  "malformed c =
     (case c of FunctionValue f \<Rightarrow> False | ObjectValue a obj \<Rightarrow> a | PrimitiveValue v \<Rightarrow> True)"

text \<open>
  What \<^verbatim>\<open>console.error\<close> receives for a malformed registration: the TypeError caught
  for \<^verbatim>\<open>null\<close>, the message of the \<^verbatim>\<open>else\<close> branch for the others.
\<close>

definition logged_for :: "('p, 'w) ServiceContribution \<Rightarrow> jsvalue" where
  "logged_for c =
     (case c of
        PrimitiveValue v \<Rightarrow>
          (if v = JSNull then TypeError
           else Primitive (JSString (''unexpected contribution type: '' @ typeof c)))
      | _ \<Rightarrow> Primitive (JSString (''unexpected contribution type: '' @ typeof c)))"

text \<open>A contribution is pure for a call when answering it leaves the world as it was.\<close>

definition effect_free :: "('p, 'w) ServiceContribution \<Rightarrow> string \<Rightarrow> 'p \<Rightarrow> bool" where
  "effect_free c serviceId params =
     (\<forall>w. case invoke c serviceId params w of Some (r, w') \<Rightarrow> w' = w | None \<Rightarrow> True)"

section \<open>Sample contributions\<close>

text \<open>
  The samples take no \<^verbatim>\<open>params\<close> and live in a world that counts the calls that had
  an effect.

  An object literal inherits from \<^verbatim>\<open>Object.prototype\<close>. Of its members only
  \<^verbatim>\<open>toString\<close> is written out, the one looked up below: called on an ordinary
  object it returns the string \<^verbatim>\<open>[object Object]\<close> and changes nothing.
\<close>

definition literal_prototype :: "(unit, nat) jsobject" where
  "literal_prototype =
     JSObject
       [''toString'' \<mapsto>
          DataProperty (Callable (\<lambda>params w. (Normal (Primitive (JSString ''[object Object]'')), w)))]
       None"

text \<open>\<^verbatim>\<open>{ 'x': () => undefined }\<close>\<close>

definition x_undefined :: "(unit, nat) ServiceContribution" where
  "x_undefined =
     ObjectValue False
       (JSObject
          [''x'' \<mapsto> DataProperty (Callable (\<lambda>params w. (Normal (Primitive JSUndefined), w)))]
          (Some literal_prototype))"

text \<open>\<^verbatim>\<open>{ '/services/a': () => serviceA }\<close>\<close>

definition path_record :: "(unit, nat) jsobject" where
  "path_record =
     JSObject
       [''/services/a'' \<mapsto> DataProperty (Callable (\<lambda>params w. (Normal (ObjectRef 1), w)))]
       (Some literal_prototype)"

text \<open>\<^verbatim>\<open>() => 'service-default'\<close>\<close>

definition service_default :: "(unit, nat) ServiceContribution" where
  "service_default =
     FunctionValue (\<lambda>serviceId params w. (Normal (Primitive (JSString ''service-default'')), w))"

text \<open>A function that builds a service object at every call.\<close>

definition counting :: "(unit, nat) ServiceContribution" where
  "counting = FunctionValue (\<lambda>serviceId params w. (Normal (ObjectRef 7), Suc w))"

text \<open>\<^verbatim>\<open>() => { calls++; throw new Error('boom') }\<close>\<close>

definition throwing :: "(unit, nat) ServiceContribution" where
  "throwing = FunctionValue (\<lambda>serviceId params w. (Throw (Error ''boom''), Suc w))"

text \<open>An \<^verbatim>\<open>async\<close> function: its call returns a promise that is still pending.\<close>

definition pending :: "(unit, nat) ServiceContribution" where
  "pending = FunctionValue (\<lambda>serviceId params w. (Normal (Promise Pending), Suc w))"

text \<open>An array that carries a property \<^verbatim>\<open>x\<close> holding a service factory.\<close>

definition array_with_x :: "(unit, nat) ServiceContribution" where
  "array_with_x =
     ObjectValue True
       (JSObject
          [''x'' \<mapsto> DataProperty (Callable (\<lambda>params w. (Normal (ObjectRef 9), Suc w)))]
          None)"

definition start :: "nat env" where
  "start = \<lparr>console = [], world = 0\<rparr>"

section \<open>The array behind the provider\<close>

text \<open>
  The constructor copies nothing: \<^verbatim>\<open>this.serviceContributions\<close> is the very array it
  was given, and whoever else holds that array, a contribution included, can change it.
  The field itself is \<^verbatim>\<open>protected\<close> and \<^verbatim>\<open>getService\<close> never assigns it. So the
  provider is given here by the function that reads the contents of its array out of the
  world.

  \<^verbatim>\<open>for (const contribution of this.serviceContributions)\<close> runs an array iterator:
  before each turn it compares its index with the length the array has then and reads
  the element the array holds then. An array that keeps growing keeps the loop going,
  so a run need not end: \<open>None\<close> is the run that does not. When no contribution changes
  the array, the run is the one of \<open>getService_loop\<close> over the list the array holds.
\<close>

partial_function (option) getService_live_loop ::
  "('w \<Rightarrow> ('p, 'w) ServiceContribution list) \<Rightarrow> string \<Rightarrow> 'p \<Rightarrow> nat \<Rightarrow> 'w env \<Rightarrow>
     (jsvalue option \<times> 'w env) option" where
  "getService_live_loop array serviceId params i s =
     (if i < length (array (world s)) then
        (case getService_iteration (array (world s) ! i) serviceId params s of
           (ReturnService service, s') \<Rightarrow> Some (Some service, s')
         | (NextContribution, s') \<Rightarrow> getService_live_loop array serviceId params (Suc i) s')
      else Some (None, s))"

definition getService_live ::
  "('w \<Rightarrow> ('p, 'w) ServiceContribution list) \<Rightarrow> string \<Rightarrow> 'p \<Rightarrow> 'w env \<Rightarrow>
     (jsvalue completion \<times> 'w env) option" where
  "getService_live array serviceId params s =
     (case getService_live_loop array serviceId params 0 s of
        None \<Rightarrow> None
      | Some (Some service, s') \<Rightarrow> Some (Normal service, s')
      | Some (None, s') \<Rightarrow> Some (Throw (Error (not_found_message serviceId)), s'))"

text \<open>
  A contribution keeps the array when evaluating it for the call in a world where the
  array holds \<open>cs\<close> leaves a world where it still does.
\<close>

definition keeps_array ::
  "('w \<Rightarrow> ('p, 'w) ServiceContribution list) \<Rightarrow> ('p, 'w) ServiceContribution list \<Rightarrow>
     ('p, 'w) ServiceContribution \<Rightarrow> string \<Rightarrow> 'p \<Rightarrow> bool" where
  "keeps_array array cs c serviceId params =
     (\<forall>w. array w = cs \<longrightarrow>
          (case invoke c serviceId params w of Some (r, w') \<Rightarrow> array w' = cs | None \<Rightarrow> True))"

text \<open>
  Sample values for a world that is the array itself, as the list of the references it
  holds. Reference \<open>0\<close> is a function that pushes reference \<open>1\<close> onto the array and
  returns \<^verbatim>\<open>undefined\<close>; \<open>1\<close> is \<^verbatim>\<open>() => 'service-default'\<close>; \<open>2\<close> is
  \<^verbatim>\<open>() => undefined\<close>; every other reference is \<^verbatim>\<open>undefined\<close>.
\<close>

definition referenced :: "nat \<Rightarrow> (unit, nat list) ServiceContribution" where
  "referenced r =
     (if r = 0 then FunctionValue (\<lambda>serviceId params w. (Normal (Primitive JSUndefined), w @ [1]))
      else if r = 1 then
        FunctionValue (\<lambda>serviceId params w. (Normal (Primitive (JSString ''service-default'')), w))
      else if r = 2 then FunctionValue (\<lambda>serviceId params w. (Normal (Primitive JSUndefined), w))
      else PrimitiveValue JSUndefined)"

section \<open>The branches of the loop body\<close>

text \<open>
  The cases of \<open>invoke\<close> are the tests the source makes with \<^verbatim>\<open>typeof\<close> and
  \<^verbatim>\<open>Array.isArray\<close>.
\<close>

lemma typeof_function: "typeof c = ''function'' \<longleftrightarrow> (\<exists>f. c = FunctionValue f)"
  by (cases c rule: typeof.cases) auto

lemma record_branch:
  "(typeof c \<noteq> ''function'' \<and> typeof c = ''object'' \<and> \<not> Array_isArray c)
     \<longleftrightarrow> ((\<exists>obj. c = ObjectValue False obj) \<or> c = PrimitiveValue JSNull)"
  by (cases c rule: typeof.cases) auto

lemma else_branch:
  "invoke c sid p w = None \<longleftrightarrow>
     typeof c \<noteq> ''function'' \<and> \<not> (typeof c = ''object'' \<and> \<not> Array_isArray c)"
  by (cases c rule: typeof.cases) (auto simp: invoke_def)

lemma malformed_iff:
  "malformed c \<longleftrightarrow> invoke c sid p w = None \<or> c = PrimitiveValue JSNull"
  by (cases c) (auto simp: malformed_def invoke_def)

lemma iteration_throw:
  "invoke c sid p (world s) = Some (Throw e, w') \<Longrightarrow>
   getService_iteration c sid p s =
     (NextContribution, s\<lparr>console := console s @ [e], world := w'\<rparr>)"
  by (simp add: getService_iteration_def)

lemma iteration_return:
  "invoke c sid p (world s) = Some (Normal v, w') \<Longrightarrow>
   getService_iteration c sid p s =
     (if ToBoolean v then ReturnService v else NextContribution, s\<lparr>world := w'\<rparr>)"
  by (simp add: getService_iteration_def)

lemma iteration_malformed:
  "malformed c \<Longrightarrow>
   getService_iteration c sid p s =
     (NextContribution, s\<lparr>console := console s @ [logged_for c]\<rparr>)"
  by (cases c)
     (auto simp: malformed_def logged_for_def getService_iteration_def invoke_def unexpected_def)

lemma iteration_truthy:
  "getService_iteration c sid p s = (ReturnService v, s') \<Longrightarrow> ToBoolean v"
  by (auto simp: getService_iteration_def unexpected_def
           split: option.splits if_splits elim!: after_try.elims)

subsection \<open>Records\<close>

text \<open>
  A key among the record's own properties that holds a callable: the callable is called
  with \<^verbatim>\<open>params\<close>.
\<close>

lemma record_own_key:
  "own obj sid = Some (DataProperty (Callable f)) \<Longrightarrow>
   invoke (ObjectValue False obj) sid p w = Some (f p w)"
  by (cases obj) (simp add: invoke_def optional_call_def)

text \<open>
  A key that the record does not have and cannot inherit: the turn ends like one whose
  callable returned \<^verbatim>\<open>undefined\<close>, nothing is logged and nothing changes.
\<close>

lemma record_key_absent:
  "own obj sid = None \<Longrightarrow> proto obj = None \<Longrightarrow>
   getService_iteration (ObjectValue False obj) sid p s = (NextContribution, s)"
  by (cases obj) (simp add: getService_iteration_def invoke_def optional_call_def)

text \<open>
  A key that the record does not have but its prototype does: the lookup finds the
  inherited member and calls it.
\<close>

lemma record_inherited_key:
  "own obj sid = None \<Longrightarrow> proto obj = Some parent \<Longrightarrow>
   own parent sid = Some (DataProperty (Callable f)) \<Longrightarrow>
   invoke (ObjectValue False obj) sid p w = Some (f p w)"
  by (cases obj, cases parent) (simp add: invoke_def optional_call_def)

section \<open>The loop\<close>

lemma getService_loop_append:
  "getService_loop (xs @ ys) sid p s =
     (case getService_loop xs sid p s of
        (Some v, s') \<Rightarrow> (Some v, s')
      | (None, s') \<Rightarrow> getService_loop ys sid p s')"
  by (induction xs arbitrary: s) (auto split: prod.splits step.splits option.splits)

lemma loop_reach:
  assumes "getService_loop xs sid p s = (None, s1)"
  shows "getService_loop (xs @ c # ys) sid p s =
     (case getService_iteration c sid p s1 of
        (ReturnService v, s') \<Rightarrow> (Some v, s')
      | (NextContribution, s') \<Rightarrow> getService_loop ys sid p s')"
  using assms by (simp add: getService_loop_append)

lemma loop_truthy:
  "getService_loop cs sid p s = (Some v, s') \<Longrightarrow> ToBoolean v"
  by (induction cs arbitrary: s) (auto split: prod.splits step.splits dest: iteration_truthy)

lemma length_answers: "length (answers cs sid p s) = length cs"
  by (induction cs arbitrary: s) (auto split: prod.splits)

lemma loop_None_iff:
  "fst (getService_loop cs sid p s) = None \<longleftrightarrow>
     (\<forall>r \<in> set (answers cs sid p s). r = NextContribution)"
  by (induction cs arbitrary: s) (auto split: prod.splits step.splits)

text \<open>
  When some contribution answers with a service, the list splits at the first one that
  does: the walk passes over the contributions before it and reaches it.
\<close>

lemma first_service_exists:
  assumes "\<exists>r \<in> set (answers cs sid p s). r \<noteq> NextContribution"
  shows "\<exists>xs c ys s1 v s2. cs = xs @ c # ys \<and> getService_loop xs sid p s = (None, s1) \<and>
           getService_iteration c sid p s1 = (ReturnService v, s2)"
  using assms
proof (induction cs arbitrary: s)
  case Nil
  then show ?case by simp
next
  case (Cons c cs)
  obtain q t where it: "getService_iteration c sid p s = (q, t)"
    by (cases "getService_iteration c sid p s")
  show ?case
  proof (cases q)
    case (ReturnService v)
    with it have "c # cs = [] @ c # cs \<and> getService_loop [] sid p s = (None, s) \<and>
           getService_iteration c sid p s = (ReturnService v, t)"
      by simp
    then show ?thesis by blast
  next
    case NextContribution
    with Cons.prems it have "\<exists>r \<in> set (answers cs sid p t). r \<noteq> NextContribution"
      by simp
    from Cons.IH[OF this] obtain xs c' ys s1 v s2 where
      split: "cs = xs @ c' # ys" and
      walk: "getService_loop xs sid p t = (None, s1)" and
      hit: "getService_iteration c' sid p s1 = (ReturnService v, s2)"
      by blast
    from walk it NextContribution have "getService_loop (c # xs) sid p s = (None, s1)"
      by simp
    moreover from split have "c # cs = (c # xs) @ c' # ys" by simp
    ultimately show ?thesis using hit by blast
  qed
qed

lemma getService_skip:
  assumes "getService_loop xs sid p s = (None, s1)"
      and "getService_iteration c sid p s1 = (NextContribution, s2)"
  shows "getService \<lparr>serviceContributions = xs @ c # ys\<rparr> sid p s =
     (case getService \<lparr>serviceContributions = ys\<rparr> sid p s2 of
        (r, this, s') \<Rightarrow> (r, \<lparr>serviceContributions = xs @ c # ys\<rparr>, s'))"
  using assms by (simp add: getService_def loop_reach split: prod.splits option.splits)

text \<open>With no contribution at all the lookup fails at once.\<close>

lemma getService_no_contributions:
  "getService \<lparr>serviceContributions = []\<rparr> sid p s =
     (Throw (Error (not_found_message sid)), \<lparr>serviceContributions = []\<rparr>, s)"
  by (simp add: getService_def)

subsection \<open>The console is only appended to\<close>

lemma iteration_console:
  assumes "getService_iteration c sid p s = (r, s')"
  shows "\<exists>new. s' = s\<lparr>console := console s @ new, world := world s'\<rparr> \<and>
           (\<forall>k. getService_iteration c sid p (s\<lparr>console := k\<rparr>) =
                  (r, s\<lparr>console := k @ new, world := world s'\<rparr>))"
proof (cases "invoke c sid p (world s)")
  case None
  with assms show ?thesis
    by (intro exI[of _ "[Primitive (JSString (''unexpected contribution type: '' @ typeof c))]"])
       (auto simp: getService_iteration_def unexpected_def)
next
  case (Some a)
  obtain q w' where a: "a = (q, w')" by (cases a)
  show ?thesis
  proof (cases q)
    case (Normal v)
    with assms Some a show ?thesis
      by (intro exI[of _ "[]"]) (auto simp: getService_iteration_def)
  next
    case (Throw e)
    with assms Some a show ?thesis
      by (intro exI[of _ "[e]"]) (auto simp: getService_iteration_def)
  qed
qed

lemma loop_console:
  assumes "getService_loop cs sid p s = (r, s')"
  shows "\<exists>new. s' = s\<lparr>console := console s @ new, world := world s'\<rparr> \<and>
           (\<forall>k. getService_loop cs sid p (s\<lparr>console := k\<rparr>) =
                  (r, s\<lparr>console := k @ new, world := world s'\<rparr>))"
  using assms
proof (induction cs arbitrary: s)
  case Nil
  then show ?case by (intro exI[of _ "[]"]) auto
next
  case (Cons c cs)
  obtain q t where it: "getService_iteration c sid p s = (q, t)"
    by (cases "getService_iteration c sid p s")
  from iteration_console[OF it] obtain n1 where
    t: "t = s\<lparr>console := console s @ n1, world := world t\<rparr>" and
    k1: "\<And>k. getService_iteration c sid p (s\<lparr>console := k\<rparr>) =
                  (q, s\<lparr>console := k @ n1, world := world t\<rparr>)"
    by blast
  show ?case
  proof (cases q)
    case (ReturnService v)
    with Cons.prems it have "r = Some v" "s' = t" by auto
    with t k1 ReturnService show ?thesis
      by (intro exI[of _ n1]) auto
  next
    case NextContribution
    with Cons.prems it have rest: "getService_loop cs sid p t = (r, s')" by simp
    from Cons.IH[OF rest] obtain n2 where
      s': "s' = t\<lparr>console := console t @ n2, world := world s'\<rparr>" and
      k2: "\<And>k. getService_loop cs sid p (t\<lparr>console := k\<rparr>) =
                  (r, t\<lparr>console := k @ n2, world := world s'\<rparr>)"
      by blast
    have ct: "console t = console s @ n1" by (subst t) simp
    have "s' = s\<lparr>console := console s @ (n1 @ n2), world := world s'\<rparr>"
      by (subst s', subst t) (simp add: ct)
    moreover have "getService_loop (c # cs) sid p (s\<lparr>console := k\<rparr>) =
                  (r, s\<lparr>console := k @ (n1 @ n2), world := world s'\<rparr>)" for k
    proof -
      have "t\<lparr>console := k @ n1\<rparr> = s\<lparr>console := k @ n1, world := world t\<rparr>"
        by (subst t) simp
      moreover have "t\<lparr>console := (k @ n1) @ n2, world := world s'\<rparr>
                   = s\<lparr>console := k @ (n1 @ n2), world := world s'\<rparr>"
        by (subst t) simp
      ultimately have "getService_loop cs sid p (s\<lparr>console := k @ n1, world := world t\<rparr>) =
          (r, s\<lparr>console := k @ (n1 @ n2), world := world s'\<rparr>)"
        using k2[of "k @ n1"] by metis
      then show ?thesis
        using k1[of k] NextContribution by simp
    qed
    ultimately show ?thesis by blast
  qed
qed

text \<open>Neither the completion nor the world left behind depends on what the console holds.\<close>

lemma loop_console_independent:
  "fst (getService_loop cs sid p (s\<lparr>console := k\<rparr>)) = fst (getService_loop cs sid p s) \<and>
   world (snd (getService_loop cs sid p (s\<lparr>console := k\<rparr>))) =
     world (snd (getService_loop cs sid p s))"
proof -
  obtain r s' where run: "getService_loop cs sid p s = (r, s')"
    by (cases "getService_loop cs sid p s")
  from loop_console[OF run] obtain new where
    "getService_loop cs sid p (s\<lparr>console := k\<rparr>) =
       (r, s\<lparr>console := k @ new, world := world s'\<rparr>)"
    by blast
  with run show ?thesis by simp
qed

lemma getService_console_independent:
  "fst (getService this sid p (s\<lparr>console := k\<rparr>)) = fst (getService this sid p s) \<and>
   world (snd (snd (getService this sid p (s\<lparr>console := k\<rparr>)))) =
     world (snd (snd (getService this sid p s)))"
  using loop_console_independent[where cs = "serviceContributions this"
          and sid = sid and p = p and s = s and k = k]
  by (auto simp: getService_def split: prod.splits option.splits)

subsection \<open>Pure contributions\<close>

lemma iteration_effect_free:
  assumes "effect_free c sid p"
  shows "world (snd (getService_iteration c sid p s)) = world s"
proof -
  from assms have pure:
    "case invoke c sid p (world s) of Some (r, w') \<Rightarrow> w' = world s | None \<Rightarrow> True"
    unfolding effect_free_def by blast
  show ?thesis
  proof (cases "invoke c sid p (world s)")
    case None
    then show ?thesis by (simp add: getService_iteration_def unexpected_def)
  next
    case (Some a)
    obtain q w' where a: "a = (q, w')" by (cases a)
    with Some pure have "w' = world s" by simp
    with Some a show ?thesis
      by (cases q) (simp_all add: getService_iteration_def)
  qed
qed

lemma loop_effect_free:
  "\<forall>c \<in> set cs. effect_free c sid p \<Longrightarrow> world (snd (getService_loop cs sid p s)) = world s"
proof (induction cs arbitrary: s)
  case Nil
  then show ?case by simp
next
  case (Cons c cs)
  then have "world (snd (getService_iteration c sid p s)) = world s"
    by (simp add: iteration_effect_free)
  with Cons show ?case
    by (auto split: prod.splits step.splits)
qed

text \<open>When no contribution's answer depends on the state, the answers are those of a map.\<close>

lemma answers_stateless:
  assumes "\<forall>c \<in> set cs. \<forall>t. fst (getService_iteration c sid p t) = fst (getService_iteration c sid p s)"
  shows "answers cs sid p s = map (\<lambda>c. fst (getService_iteration c sid p s)) cs"
proof -
  have "\<forall>c \<in> set cs. \<forall>t. fst (getService_iteration c sid p t) = g c \<Longrightarrow>
        answers cs sid p u = map g cs" for g u
    by (induction cs arbitrary: u) (simp_all add: case_prod_beta)
  from this[of "\<lambda>c. fst (getService_iteration c sid p s)" s] assms show ?thesis by blast
qed

section \<open>The walk over the live array\<close>

text \<open>
  When every contribution of the array keeps it, the iterator walks the list the array
  held at the start: the run ends, with the result of the loop over that list, and the
  array holds the same list afterwards.
\<close>

lemma iteration_keeps_array:
  assumes keeps: "keeps_array array cs c sid p"
      and held: "array (world t) = cs"
  shows "array (world (snd (getService_iteration c sid p t))) = cs"
proof (cases "invoke c sid p (world t)")
  case None
  with held show ?thesis
    by (simp add: getService_iteration_def unexpected_def)
next
  case (Some a)
  obtain q w' where a: "a = (q, w')" by (cases a)
  from keeps held have
    "case invoke c sid p (world t) of Some (r, w') \<Rightarrow> array w' = cs | None \<Rightarrow> True"
    unfolding keeps_array_def by blast
  with Some a have "array w' = cs" by simp
  with Some a show ?thesis
    by (cases q) (simp_all add: getService_iteration_def)
qed

lemma live_loop_fixed:
  assumes keeps: "\<forall>c \<in> set cs. keeps_array array cs c sid p"
      and held: "array (world s) = cs"
      and bound: "i \<le> length cs"
  shows "getService_live_loop array sid p i s = Some (getService_loop (drop i cs) sid p s) \<and>
         array (world (snd (getService_loop (drop i cs) sid p s))) = cs"
  using held bound
proof (induction "length cs - i" arbitrary: i s)
  case 0
  then have "drop i cs = []" by simp
  with 0 show ?case
    by (subst getService_live_loop.simps) simp
next
  case (Suc n)
  then have lt: "i < length cs" by simp
  then have split: "drop i cs = cs ! i # drop (Suc i) cs"
    by (simp add: Cons_nth_drop_Suc)
  obtain q t where it: "getService_iteration (cs ! i) sid p s = (q, t)"
    by (cases "getService_iteration (cs ! i) sid p s")
  from lt keeps have "keeps_array array cs (cs ! i) sid p" by simp
  from iteration_keeps_array[OF this Suc.prems(1)] it have held': "array (world t) = cs"
    by simp
  show ?case
  proof (cases q)
    case (ReturnService v)
    with it lt held' Suc.prems(1) show ?thesis
      by (subst getService_live_loop.simps) (simp add: split)
  next
    case NextContribution
    from Suc.hyps(2) lt have "n = length cs - Suc i" by simp
    from Suc.hyps(1)[OF this held'] lt
    have "getService_live_loop array sid p (Suc i) t =
            Some (getService_loop (drop (Suc i) cs) sid p t) \<and>
          array (world (snd (getService_loop (drop (Suc i) cs) sid p t))) = cs"
      by simp
    with it lt NextContribution Suc.prems(1) show ?thesis
      by (subst getService_live_loop.simps) (simp add: split)
  qed
qed

lemma effect_free_keeps_array:
  assumes "effect_free c sid p"
  shows "keeps_array array cs c sid p"
proof -
  have "case invoke c sid p w of Some (r, w') \<Rightarrow> array w' = cs | None \<Rightarrow> True"
    if "array w = cs" for w
  proof -
    from assms have "case invoke c sid p w of Some (r, w') \<Rightarrow> w' = w | None \<Rightarrow> True"
      unfolding effect_free_def by blast
    with that show ?thesis
      by (auto split: option.splits)
  qed
  then show ?thesis unfolding keeps_array_def by blast
qed

lemma getService_live_fixed:
  assumes "\<forall>c \<in> set (array (world s)). keeps_array array (array (world s)) c sid p"
  shows "getService_live array sid p s =
           Some (case getService \<lparr>serviceContributions = array (world s)\<rparr> sid p s of
                   (r, this, s') \<Rightarrow> (r, s'))"
    and "array (world (snd (snd (getService \<lparr>serviceContributions = array (world s)\<rparr> sid p s))))
           = array (world s)"
proof -
  from live_loop_fixed[OF assms refl, of 0]
  have run: "getService_live_loop array sid p 0 s =
               Some (getService_loop (array (world s)) sid p s)"
    and kept: "array (world (snd (getService_loop (array (world s)) sid p s))) = array (world s)"
    by simp_all
  from run show "getService_live array sid p s =
           Some (case getService \<lparr>serviceContributions = array (world s)\<rparr> sid p s of
                   (r, this, s') \<Rightarrow> (r, s'))"
    by (simp add: getService_live_def getService_def split: prod.splits option.splits)
  from kept show "array (world (snd (snd
      (getService \<lparr>serviceContributions = array (world s)\<rparr> sid p s)))) = array (world s)"
    by (auto simp: getService_def split: prod.splits option.splits)
qed

section \<open>Evaluating the samples\<close>

lemmas sample_defs =
  literal_prototype_def x_undefined_def path_record_def service_default_def counting_def
  throwing_def pending_def array_with_x_def start_def

lemmas run_defs =
  getService_def getService_iteration_def invoke_def optional_call_def unexpected_def

lemma x_undefined_passed:
  "getService_loop [x_undefined] ''x'' () start = (None, start)"
  by (simp add: sample_defs run_defs)

section \<open>Properties of getService\<close>

text \<open>
  C1. When the contributions before \<open>c\<close> are walked without a service being found and
  \<open>c\<close>, asked in the state they left, answers with a truthy value, \<^verbatim>\<open>getService\<close>
  returns that value and stops in the state \<open>c\<close> left: whatever follows \<open>c\<close> in the list,
  contributions that would throw included, is not consulted.
\<close>

theorem getService_returns_first_truthy:
  assumes "getService_loop xs sid p s = (None, s1)"
      and "getService_iteration c sid p s1 = (ReturnService v, s2)"
  shows "getService \<lparr>serviceContributions = xs @ c # ys\<rparr> sid p s =
     (Normal v, \<lparr>serviceContributions = xs @ c # ys\<rparr>, s2)"
  using assms by (simp add: getService_def loop_reach)

theorem getService_returns_first_truthy_witness:
  "getService_loop [x_undefined] ''x'' () start = (None, start)
   \<and> getService_iteration service_default ''x'' () start =
       (ReturnService (Primitive (JSString ''service-default'')), start)
   \<and> getService \<lparr>serviceContributions = [x_undefined, service_default, throwing]\<rparr> ''x'' () start =
       (Normal (Primitive (JSString ''service-default'')),
        \<lparr>serviceContributions = [x_undefined, service_default, throwing]\<rparr>, start)"
proof -
  have h1: "getService_loop [x_undefined] ''x'' () start = (None, start)"
    by (rule x_undefined_passed)
  have h2: "getService_iteration service_default ''x'' () start =
       (ReturnService (Primitive (JSString ''service-default'')), start)"
    by (simp add: sample_defs run_defs)
  from getService_returns_first_truthy[OF h1 h2, of "[throwing]"] h1 h2
  show ?thesis by simp
qed

text \<open>
  C2. \<^verbatim>\<open>getService\<close> throws the error whose message is
  \<^verbatim>\<open>no service found for "<serviceId>"\<close>, the requested identifier between double
  quotes, exactly when no contribution of the list answers the call with a service,
  each one returning a falsy value, being malformed or throwing; and it throws nothing
  else.
\<close>

theorem getService_not_found_iff:
  "(fst (getService this sid p s) =
        Throw (Error (''no service found for '' @ [CHR 0x22] @ sid @ [CHR 0x22]))
      \<longleftrightarrow> (\<forall>r \<in> set (answers (serviceContributions this) sid p s). r = NextContribution))
   \<and> (\<forall>e. fst (getService this sid p s) = Throw e \<longrightarrow>
          e = Error (''no service found for '' @ [CHR 0x22] @ sid @ [CHR 0x22]))"
proof -
  have "fst (getService this sid p s) =
          Throw (Error (''no service found for '' @ [CHR 0x22] @ sid @ [CHR 0x22]))
      \<longleftrightarrow> fst (getService_loop (serviceContributions this) sid p s) = None"
    by (auto simp: getService_def not_found_message_def split: prod.splits option.splits)
  moreover have "\<forall>e. fst (getService this sid p s) = Throw e \<longrightarrow>
          e = Error (''no service found for '' @ [CHR 0x22] @ sid @ [CHR 0x22])"
    by (auto simp: getService_def not_found_message_def split: prod.splits option.splits)
  ultimately show ?thesis by (simp add: loop_None_iff)
qed

theorem getService_not_found_iff_witness:
  "answers [x_undefined, throwing, array_with_x, PrimitiveValue JSNull] ''x'' () start =
       [NextContribution, NextContribution, NextContribution, NextContribution]
   \<and> fst (getService
            \<lparr>serviceContributions = [x_undefined, throwing, array_with_x, PrimitiveValue JSNull]\<rparr>
            ''x'' () start)
       = Throw (Error (''no service found for '' @ [CHR 0x22] @ ''x'' @ [CHR 0x22]))
   \<and> answers [x_undefined, service_default] ''x'' () start =
       [NextContribution, ReturnService (Primitive (JSString ''service-default''))]
   \<and> fst (getService \<lparr>serviceContributions = [x_undefined, service_default]\<rparr> ''x'' () start)
       \<noteq> Throw (Error (''no service found for '' @ [CHR 0x22] @ ''x'' @ [CHR 0x22]))"
proof -
  let ?none = "[x_undefined, throwing, array_with_x, PrimitiveValue JSNull]"
  let ?some = "[x_undefined, service_default]"
  have none: "answers ?none ''x'' () start =
       [NextContribution, NextContribution, NextContribution, NextContribution]"
    by (simp add: sample_defs run_defs)
  have some: "answers ?some ''x'' () start =
       [NextContribution, ReturnService (Primitive (JSString ''service-default''))]"
    by (simp add: sample_defs run_defs)
  have all_none: "\<forall>r \<in> set (answers ?none ''x'' () start). r = NextContribution"
    unfolding none by simp
  have not_all: "\<not> (\<forall>r \<in> set (answers ?some ''x'' () start). r = NextContribution)"
    unfolding some by simp
  have fails: "fst (getService \<lparr>serviceContributions = ?none\<rparr> ''x'' () start)
          = Throw (Error (''no service found for '' @ [CHR 0x22] @ ''x'' @ [CHR 0x22]))"
    using all_none
      getService_not_found_iff[of "\<lparr>serviceContributions = ?none\<rparr>" "''x''" "()" start]
    unfolding DefaultServiceProvider.simps by blast
  have finds: "fst (getService \<lparr>serviceContributions = ?some\<rparr> ''x'' () start)
          \<noteq> Throw (Error (''no service found for '' @ [CHR 0x22] @ ''x'' @ [CHR 0x22]))"
    using not_all
      getService_not_found_iff[of "\<lparr>serviceContributions = ?some\<rparr>" "''x''" "()" start]
    unfolding DefaultServiceProvider.simps by blast
  from none fails some finds show ?thesis by (intro conjI)
qed

text \<open>
  C3. When a contribution that is reached throws, \<^verbatim>\<open>getService\<close> logs the error and its
  outcome is that of the lookup over the contributions after it: the error does not reach
  the caller and the later contributions are consulted. The completion and the world are
  those of the same call with, in place of the throwing contribution, any contribution
  that has the same effect and returns a falsy value.
\<close>

theorem throwing_contribution_skipped:
  assumes reach: "getService_loop xs sid p s = (None, s1)"
      and throws: "invoke c sid p (world s1) = Some (Throw e, w')"
  shows "getService \<lparr>serviceContributions = xs @ c # ys\<rparr> sid p s =
           (case getService \<lparr>serviceContributions = ys\<rparr> sid p
                   (s1\<lparr>console := console s1 @ [e], world := w'\<rparr>) of
              (r, this, s') \<Rightarrow> (r, \<lparr>serviceContributions = xs @ c # ys\<rparr>, s'))
       \<and> (\<forall>c' v'. invoke c' sid p (world s1) = Some (Normal v', w') \<and> \<not> ToBoolean v' \<longrightarrow>
            fst (getService \<lparr>serviceContributions = xs @ c # ys\<rparr> sid p s) =
            fst (getService \<lparr>serviceContributions = xs @ c' # ys\<rparr> sid p s) \<and>
            world (snd (snd (getService \<lparr>serviceContributions = xs @ c # ys\<rparr> sid p s))) =
            world (snd (snd (getService \<lparr>serviceContributions = xs @ c' # ys\<rparr> sid p s))))"
proof -
  let ?logged = "s1\<lparr>console := console s1 @ [e], world := w'\<rparr>"
  let ?quiet = "s1\<lparr>world := w'\<rparr>"
  have skip: "getService \<lparr>serviceContributions = xs @ c # ys\<rparr> sid p s =
           (case getService \<lparr>serviceContributions = ys\<rparr> sid p ?logged of
              (r, this, s') \<Rightarrow> (r, \<lparr>serviceContributions = xs @ c # ys\<rparr>, s'))"
    using reach iteration_throw[OF throws] by (rule getService_skip)
  have same: "fst (getService \<lparr>serviceContributions = xs @ c # ys\<rparr> sid p s) =
            fst (getService \<lparr>serviceContributions = xs @ c' # ys\<rparr> sid p s) \<and>
            world (snd (snd (getService \<lparr>serviceContributions = xs @ c # ys\<rparr> sid p s))) =
            world (snd (snd (getService \<lparr>serviceContributions = xs @ c' # ys\<rparr> sid p s)))"
    if empty: "invoke c' sid p (world s1) = Some (Normal v', w')" and falsy: "\<not> ToBoolean v'"
    for c' v'
  proof -
    from empty falsy have "getService_iteration c' sid p s1 = (NextContribution, ?quiet)"
      by (simp add: iteration_return)
    with reach have skip': "getService \<lparr>serviceContributions = xs @ c' # ys\<rparr> sid p s =
           (case getService \<lparr>serviceContributions = ys\<rparr> sid p ?quiet of
              (r, this, s') \<Rightarrow> (r, \<lparr>serviceContributions = xs @ c' # ys\<rparr>, s'))"
      by (rule getService_skip)
    have eq: "?logged = ?quiet\<lparr>console := console s1 @ [e]\<rparr>" by simp
    have "fst (getService \<lparr>serviceContributions = ys\<rparr> sid p ?logged) =
          fst (getService \<lparr>serviceContributions = ys\<rparr> sid p ?quiet) \<and>
          world (snd (snd (getService \<lparr>serviceContributions = ys\<rparr> sid p ?logged))) =
          world (snd (snd (getService \<lparr>serviceContributions = ys\<rparr> sid p ?quiet)))"
      unfolding eq by (rule getService_console_independent)
    then show ?thesis
      unfolding skip skip' by (auto split: prod.splits)
  qed
  from skip same show ?thesis by blast
qed

theorem throwing_contribution_skipped_witness:
  "getService_loop [x_undefined] ''x'' () start = (None, start)
   \<and> invoke throwing ''x'' () (world start) = Some (Throw (Error ''boom''), 1)
   \<and> getService \<lparr>serviceContributions = [x_undefined, throwing, service_default]\<rparr> ''x'' () start =
       (Normal (Primitive (JSString ''service-default'')),
        \<lparr>serviceContributions = [x_undefined, throwing, service_default]\<rparr>,
        \<lparr>console = [Error ''boom''], world = 1\<rparr>)"
proof -
  have h1: "getService_loop [x_undefined] ''x'' () start = (None, start)"
    by (rule x_undefined_passed)
  have h2: "invoke throwing ''x'' () (world start) = Some (Throw (Error ''boom''), 1)"
    by (simp add: sample_defs run_defs)
  have rest: "getService \<lparr>serviceContributions = [service_default]\<rparr> ''x'' ()
                (start\<lparr>console := console start @ [Error ''boom''], world := 1\<rparr>) =
       (Normal (Primitive (JSString ''service-default'')),
        \<lparr>serviceContributions = [service_default]\<rparr>,
        \<lparr>console = [Error ''boom''], world = 1\<rparr>)"
    by (simp add: sample_defs run_defs)
  from throwing_contribution_skipped[OF h1 h2, of "[service_default]"]
  have "getService \<lparr>serviceContributions = [x_undefined] @ throwing # [service_default]\<rparr> ''x'' () start =
           (case getService \<lparr>serviceContributions = [service_default]\<rparr> ''x'' ()
                   (start\<lparr>console := console start @ [Error ''boom''], world := 1\<rparr>) of
              (r, this, s') \<Rightarrow>
                (r, \<lparr>serviceContributions = [x_undefined] @ throwing # [service_default]\<rparr>, s'))"
    by blast
  with h1 h2 rest show ?thesis by simp
qed

text \<open>
  C4. A record is matched on the exact key \<^verbatim>\<open>serviceId\<close>, and a record that lacks the
  key is to count as one that returned nothing. The lookup \<^verbatim>\<open>contribution[serviceId]\<close>
  also finds inherited members: the record \<^verbatim>\<open>{ '/services/a': () => serviceA }\<close> has
  no key \<^verbatim>\<open>toString\<close>, yet asking for the service \<^verbatim>\<open>toString\<close> calls
  \<^verbatim>\<open>Object.prototype.toString\<close> and returns the string \<^verbatim>\<open>[object Object]\<close> as the
  service, where the error \<^verbatim>\<open>no service found for "toString"\<close> is due. The same
  record without a prototype gives that error.
\<close>

theorem getService_inherited_toString:
  "own path_record ''toString'' = None
   \<and> getService \<lparr>serviceContributions = [ObjectValue False path_record]\<rparr> ''toString'' () start =
       (Normal (Primitive (JSString ''[object Object]'')),
        \<lparr>serviceContributions = [ObjectValue False path_record]\<rparr>, start)
   \<and> getService \<lparr>serviceContributions = [ObjectValue False (JSObject (own path_record) None)]\<rparr>
         ''toString'' () start =
       (Throw (Error (not_found_message ''toString'')),
        \<lparr>serviceContributions = [ObjectValue False (JSObject (own path_record) None)]\<rparr>, start)"
  by (simp add: sample_defs run_defs)

text \<open>
  C5. When \<open>A\<close> and \<open>B\<close> would both answer the call with a service, the provider built
  on \<open>[A, B]\<close> returns the service of \<open>A\<close> and the one built on \<open>[B, A]\<close> returns the
  service of \<open>B\<close>; in both cases the second contribution is not consulted.
\<close>

theorem getService_registration_order:
  assumes "getService_iteration A sid p s = (ReturnService a, sa)"
      and "getService_iteration B sid p s = (ReturnService b, sb)"
  shows "getService \<lparr>serviceContributions = [A, B]\<rparr> sid p s =
           (Normal a, \<lparr>serviceContributions = [A, B]\<rparr>, sa)
       \<and> getService \<lparr>serviceContributions = [B, A]\<rparr> sid p s =
           (Normal b, \<lparr>serviceContributions = [B, A]\<rparr>, sb)"
  using assms by (simp add: getService_def)

theorem getService_registration_order_witness:
  "getService_iteration service_default ''x'' () start =
       (ReturnService (Primitive (JSString ''service-default'')), start)
   \<and> getService_iteration counting ''x'' () start =
       (ReturnService (ObjectRef 7), \<lparr>console = [], world = 1\<rparr>)
   \<and> getService \<lparr>serviceContributions = [service_default, counting]\<rparr> ''x'' () start =
       (Normal (Primitive (JSString ''service-default'')),
        \<lparr>serviceContributions = [service_default, counting]\<rparr>, start)
   \<and> getService \<lparr>serviceContributions = [counting, service_default]\<rparr> ''x'' () start =
       (Normal (ObjectRef 7),
        \<lparr>serviceContributions = [counting, service_default]\<rparr>, \<lparr>console = [], world = 1\<rparr>)"
proof -
  have hA: "getService_iteration service_default ''x'' () start =
       (ReturnService (Primitive (JSString ''service-default'')), start)"
    by (simp add: sample_defs run_defs)
  have hB: "getService_iteration counting ''x'' () start =
       (ReturnService (ObjectRef 7), \<lparr>console = [], world = 1\<rparr>)"
    by (simp add: sample_defs run_defs)
  from getService_registration_order[OF hA hB] hA hB show ?thesis by blast
qed

text \<open>
  C6. A contribution that is neither a function nor an object other than an array is
  malformed. When it is reached, \<^verbatim>\<open>getService\<close> writes one entry to the error log,
  calls nothing, and its outcome is that of the lookup over the contributions after
  it: the malformed contribution does not abort the lookup.
\<close>

theorem malformed_contribution_skipped:
  assumes "malformed c"
      and "getService_loop xs sid p s = (None, s1)"
  shows "getService \<lparr>serviceContributions = xs @ c # ys\<rparr> sid p s =
     (case getService \<lparr>serviceContributions = ys\<rparr> sid p
             (s1\<lparr>console := console s1 @ [logged_for c]\<rparr>) of
        (r, this, s') \<Rightarrow> (r, \<lparr>serviceContributions = xs @ c # ys\<rparr>, s'))"
  using assms(2) iteration_malformed[OF assms(1)] by (rule getService_skip)

theorem malformed_contribution_skipped_witness:
  "malformed (PrimitiveValue (JSNumber (FiniteNumber 42 0)) :: (unit, nat) ServiceContribution)
   \<and> getService_loop [x_undefined] ''x'' () start = (None, start)
   \<and> getService
        \<lparr>serviceContributions =
           [x_undefined, PrimitiveValue (JSNumber (FiniteNumber 42 0)), service_default]\<rparr>
        ''x'' () start =
       (Normal (Primitive (JSString ''service-default'')),
        \<lparr>serviceContributions =
           [x_undefined, PrimitiveValue (JSNumber (FiniteNumber 42 0)), service_default]\<rparr>,
        \<lparr>console = [Primitive (JSString ''unexpected contribution type: number'')], world = 0\<rparr>)"
proof -
  let ?c = "PrimitiveValue (JSNumber (FiniteNumber 42 0)) :: (unit, nat) ServiceContribution"
  have h1: "malformed ?c"
    by (simp add: malformed_def)
  have h2: "getService_loop [x_undefined] ''x'' () start = (None, start)"
    by (rule x_undefined_passed)
  have rest: "getService \<lparr>serviceContributions = [service_default]\<rparr> ''x'' ()
                (start\<lparr>console := console start @ [logged_for ?c]\<rparr>) =
       (Normal (Primitive (JSString ''service-default'')),
        \<lparr>serviceContributions = [service_default]\<rparr>,
        \<lparr>console = [Primitive (JSString ''unexpected contribution type: number'')], world = 0\<rparr>)"
    by (simp add: sample_defs run_defs logged_for_def)
  from malformed_contribution_skipped[OF h1 h2, of "[service_default]"]
  have "getService \<lparr>serviceContributions = [x_undefined] @ ?c # [service_default]\<rparr> ''x'' () start =
     (case getService \<lparr>serviceContributions = [service_default]\<rparr> ''x'' ()
             (start\<lparr>console := console start @ [logged_for ?c]\<rparr>) of
        (r, this, s') \<Rightarrow>
          (r, \<lparr>serviceContributions = [x_undefined] @ ?c # [service_default]\<rparr>, s'))"
    by blast
  with h1 h2 rest show ?thesis by simp
qed

text \<open>
  C7. \<^verbatim>\<open>getService\<close> only tests the truthiness of what a contribution returns and
  does not await it. When a reached contribution returns a truthy value, or a promise in
  whatever state, a pending one included, \<^verbatim>\<open>getService\<close> returns that very value at
  once as the service and consults nothing after it.
\<close>

theorem getService_does_not_await:
  assumes "getService_loop xs sid p s = (None, s1)"
      and "invoke c sid p (world s1) = Some (Normal v, w')"
      and "ToBoolean v \<or> v = Promise st"
  shows "getService \<lparr>serviceContributions = xs @ c # ys\<rparr> sid p s =
     (Normal v, \<lparr>serviceContributions = xs @ c # ys\<rparr>, s1\<lparr>world := w'\<rparr>)"
proof -
  from assms(3) have "ToBoolean v" by auto
  with assms(2) have "getService_iteration c sid p s1 = (ReturnService v, s1\<lparr>world := w'\<rparr>)"
    by (simp add: iteration_return)
  with assms(1) show ?thesis
    by (simp add: getService_def loop_reach)
qed

theorem getService_does_not_await_witness:
  "getService_loop [x_undefined] ''x'' () start = (None, start)
   \<and> invoke pending ''x'' () (world start) = Some (Normal (Promise Pending), 1)
   \<and> (ToBoolean (Promise Pending) \<or> Promise Pending = Promise Pending)
   \<and> getService \<lparr>serviceContributions = [x_undefined, pending, service_default]\<rparr> ''x'' () start =
       (Normal (Promise Pending),
        \<lparr>serviceContributions = [x_undefined, pending, service_default]\<rparr>,
        \<lparr>console = [], world = 1\<rparr>)"
proof -
  have h1: "getService_loop [x_undefined] ''x'' () start = (None, start)"
    by (rule x_undefined_passed)
  have h2: "invoke pending ''x'' () (world start) = Some (Normal (Promise Pending), 1)"
    by (simp add: sample_defs run_defs)
  have h3: "ToBoolean (Promise Pending) \<or> Promise Pending = Promise Pending"
    by (rule disjI2) (rule refl)
  have "start\<lparr>world := 1\<rparr> = \<lparr>console = [], world = 1\<rparr>"
    by (simp add: start_def)
  with getService_does_not_await[OF h1 h2 h3, of "[service_default]"] h1 h2 h3
  show ?thesis by simp
qed

text \<open>
  C8. \<^verbatim>\<open>getService\<close> does not write the list, but it walks the caller's own array and
  a contribution may change that array while the call runs. When the contributions of
  the array keep it as it is, the call ends, returning or throwing as the walk over that
  list does, and the array holds the same list afterwards; when they are moreover pure
  for the call, making the same call again gives the same completion.
\<close>

theorem getService_live_leaves_list:
  assumes "\<forall>c \<in> set (array (world s)). keeps_array array (array (world s)) c sid p"
  shows "\<exists>r s'. getService_live array sid p s = Some (r, s')
           \<and> (r, s') = (case getService \<lparr>serviceContributions = array (world s)\<rparr> sid p s of
                          (r, this, s') \<Rightarrow> (r, s'))
           \<and> array (world s') = array (world s)
           \<and> ((\<forall>c \<in> set (array (world s)). effect_free c sid p) \<longrightarrow>
                (\<exists>s''. getService_live array sid p s' = Some (r, s'')))"
proof -
  let ?cs = "array (world s)"
  let ?prov = "\<lparr>serviceContributions = ?cs\<rparr>"
  obtain r this' s' where run: "getService ?prov sid p s = (r, this', s')"
    by (cases "getService ?prov sid p s")
  from getService_live_fixed[OF assms] run
  have live: "getService_live array sid p s = Some (r, s')"
    and kept: "array (world s') = ?cs"
    by simp_all
  have again: "\<exists>s''. getService_live array sid p s' = Some (r, s'')"
    if pure: "\<forall>c \<in> set ?cs. effect_free c sid p"
  proof -
    from pure have keeps': "\<forall>c \<in> set (array (world s')). keeps_array array (array (world s')) c sid p"
      by (simp add: kept effect_free_keeps_array)
    from run have "s' = snd (getService_loop ?cs sid p s)"
      by (auto simp: getService_def split: prod.splits option.splits)
    with loop_effect_free[OF pure] have "world s' = world s" by simp
    then have "s' = s\<lparr>console := console s'\<rparr>" by simp
    then have "fst (getService ?prov sid p s') = fst (getService ?prov sid p s)"
      using getService_console_independent[where this = ?prov and sid = sid and p = p
              and s = s and k = "console s'"] by simp
    with run have same: "fst (getService ?prov sid p s') = r" by simp
    obtain r2 this2 s2 where run2: "getService ?prov sid p s' = (r2, this2, s2)"
      by (cases "getService ?prov sid p s'")
    with same have "r2 = r" by simp
    with getService_live_fixed(1)[OF keeps'] run2 kept
    have "getService_live array sid p s' = Some (r, s2)" by simp
    then show ?thesis by blast
  qed
  from live kept run again show ?thesis by auto
qed

theorem getService_live_leaves_list_witness:
  "keeps_array (map referenced) (map referenced [2, 1]) (referenced 2) ''x'' ()
   \<and> keeps_array (map referenced) (map referenced [2, 1]) (referenced 1) ''x'' ()
   \<and> getService_live (map referenced) ''x'' () \<lparr>console = [], world = [2, 1]\<rparr> =
       Some (Normal (Primitive (JSString ''service-default'')), \<lparr>console = [], world = [2, 1]\<rparr>)"
proof -
  let ?s = "\<lparr>console = [], world = [2, 1 :: nat]\<rparr>"
  have k2: "keeps_array (map referenced) (map referenced [2, 1]) (referenced 2) ''x'' ()"
    by (simp add: keeps_array_def referenced_def invoke_def)
  have k1: "keeps_array (map referenced) (map referenced [2, 1]) (referenced 1) ''x'' ()"
    by (simp add: keeps_array_def referenced_def invoke_def)
  from k2 k1 have keeps:
    "\<forall>c \<in> set (map referenced (world ?s)).
        keeps_array (map referenced) (map referenced (world ?s)) c ''x'' ()"
    by simp
  have list: "getService \<lparr>serviceContributions = map referenced (world ?s)\<rparr> ''x'' () ?s =
      (Normal (Primitive (JSString ''service-default'')),
       \<lparr>serviceContributions = map referenced (world ?s)\<rparr>, ?s)"
    by (simp add: referenced_def getService_def getService_iteration_def invoke_def)
  from getService_live_leaves_list[OF keeps] obtain r s' where
    "getService_live (map referenced) ''x'' () ?s = Some (r, s')" and
    "(r, s') = (case getService \<lparr>serviceContributions = map referenced (world ?s)\<rparr> ''x'' () ?s of
                  (r, this, s') \<Rightarrow> (r, s'))"
    by blast
  with list have "getService_live (map referenced) ''x'' () ?s =
       Some (Normal (Primitive (JSString ''service-default'')), ?s)"
    by simp
  with k2 k1 show ?thesis by (intro conjI)
qed

text \<open>
  The call that changes the list: the array holds one function, which pushes
  \<^verbatim>\<open>() => 'service-default'\<close> onto the array and returns \<^verbatim>\<open>undefined\<close>. The iterator
  goes on to the new element, \<^verbatim>\<open>getService\<close> returns \<^verbatim>\<open>'service-default'\<close>, and the
  list that had one element before the call has two after it.
\<close>

theorem getService_live_list_grows:
  "getService_live (map referenced) ''x'' () \<lparr>console = [], world = [0]\<rparr> =
       Some (Normal (Primitive (JSString ''service-default'')), \<lparr>console = [], world = [0, 1]\<rparr>)
   \<and> length (map referenced (world \<lparr>console = [], world = [0]\<rparr>)) = 1
   \<and> length (map referenced (world \<lparr>console = [], world = [0, 1]\<rparr>)) = 2
   \<and> map referenced (world \<lparr>console = [], world = [0, 1]\<rparr>)
       \<noteq> map referenced (world \<lparr>console = [], world = [0]\<rparr>)"
proof -
  have "getService_live_loop (map referenced) ''x'' () 0 \<lparr>console = [], world = [0]\<rparr> =
          Some (Some (Primitive (JSString ''service-default'')), \<lparr>console = [], world = [0, 1]\<rparr>)"
    by (subst getService_live_loop.simps,
        simp add: referenced_def getService_iteration_def invoke_def,
        subst getService_live_loop.simps,
        simp add: referenced_def getService_iteration_def invoke_def)
  then show ?thesis by (simp add: getService_live_def)
qed

text \<open>
  C9. Whatever the list, the identifier and the state, \<^verbatim>\<open>getService\<close> either returns
  a truthy value or throws the error \<^verbatim>\<open>no service found for "<serviceId>"\<close>: the
  caller never receives \<^verbatim>\<open>undefined\<close> or another falsy value.
\<close>

theorem getService_truthy_or_throws:
  "(\<exists>v. fst (getService this sid p s) = Normal v \<and> ToBoolean v)
     \<or> fst (getService this sid p s) = Throw (Error (not_found_message sid))"
  by (auto simp: getService_def split: prod.splits option.splits dest: loop_truthy)

theorem getService_truthy_or_throws_witness:
  "(\<exists>v. fst (getService \<lparr>serviceContributions = [x_undefined, pending]\<rparr> ''x'' () start) = Normal v
        \<and> ToBoolean v)
     \<or> fst (getService \<lparr>serviceContributions = [x_undefined, pending]\<rparr> ''x'' () start)
         = Throw (Error (not_found_message ''x''))"
  by (rule getService_truthy_or_throws)

text \<open>
  C10. An array is an object, but it is not taken as a record: when it is reached,
  whatever properties it carries, none of them is looked up or called,
  \<^verbatim>\<open>unexpected contribution type: object\<close> is logged, and the outcome of
  \<^verbatim>\<open>getService\<close> is that of the lookup over the contributions after the array.
\<close>

theorem array_contribution_skipped:
  assumes "getService_loop xs sid p s = (None, s1)"
  shows "getService \<lparr>serviceContributions = xs @ ObjectValue True obj # ys\<rparr> sid p s =
     (case getService \<lparr>serviceContributions = ys\<rparr> sid p
             (s1\<lparr>console := console s1 @
                   [Primitive (JSString ''unexpected contribution type: object'')]\<rparr>) of
        (r, this, s') \<Rightarrow> (r, \<lparr>serviceContributions = xs @ ObjectValue True obj # ys\<rparr>, s'))"
proof -
  have "getService_iteration (ObjectValue True obj) sid p s1 =
      (NextContribution, s1\<lparr>console := console s1 @
                   [Primitive (JSString ''unexpected contribution type: object'')]\<rparr>)"
    by (simp add: getService_iteration_def invoke_def unexpected_def)
  with assms show ?thesis by (rule getService_skip)
qed

theorem array_contribution_skipped_witness:
  "getService_loop [x_undefined] ''x'' () start = (None, start)
   \<and> getService \<lparr>serviceContributions = [x_undefined, array_with_x, service_default]\<rparr> ''x'' () start =
       (Normal (Primitive (JSString ''service-default'')),
        \<lparr>serviceContributions = [x_undefined, array_with_x, service_default]\<rparr>,
        \<lparr>console = [Primitive (JSString ''unexpected contribution type: object'')], world = 0\<rparr>)"
proof -
  let ?obj = "JSObject
          [''x'' \<mapsto> DataProperty (Callable (\<lambda>params w. (Normal (ObjectRef 9), Suc w)))]
          None :: (unit, nat) jsobject"
  have arr: "array_with_x = ObjectValue True ?obj"
    by (simp add: array_with_x_def)
  have h1: "getService_loop [x_undefined] ''x'' () start = (None, start)"
    by (rule x_undefined_passed)
  have rest: "getService \<lparr>serviceContributions = [service_default]\<rparr> ''x'' ()
                (start\<lparr>console := console start @
                   [Primitive (JSString ''unexpected contribution type: object'')]\<rparr>) =
       (Normal (Primitive (JSString ''service-default'')),
        \<lparr>serviceContributions = [service_default]\<rparr>,
        \<lparr>console = [Primitive (JSString ''unexpected contribution type: object'')], world = 0\<rparr>)"
    by (simp add: sample_defs run_defs)
  from array_contribution_skipped[OF h1, of ?obj "[service_default]"]
  have "getService \<lparr>serviceContributions = [x_undefined] @ array_with_x # [service_default]\<rparr>
          ''x'' () start =
     (case getService \<lparr>serviceContributions = [service_default]\<rparr> ''x'' ()
             (start\<lparr>console := console start @
                   [Primitive (JSString ''unexpected contribution type: object'')]\<rparr>) of
        (r, this, s') \<Rightarrow>
          (r, \<lparr>serviceContributions = [x_undefined] @ array_with_x # [service_default]\<rparr>, s'))"
    unfolding arr by blast
  with h1 rest show ?thesis by simp
qed

end
